theory Spec2Isabelle
  imports Complex_Main "HOL-Library.Product_Lexorder"
begin

section \<open>Data model\<close>

text \<open>
  A point is a Python tuple \<open>(x, y)\<close>; \<open>p[0]\<close> is \<open>fst p\<close> and \<open>p[1]\<close> is \<open>snd p\<close>.
  Coordinates are taken as real numbers, the specification's "real-valued coordinates":
  every product, difference and comparison below is exact, and rounding of floating-point
  arithmetic is outside the model. Python compares tuples lexicographically, which is the
  order that \<open>Product_Lexorder\<close> puts on pairs.
\<close>

type_synonym point = "real \<times> real"

section \<open>Library functions of Python used by the program\<close>

text \<open>
  \<open>math.atan2(y, x)\<close>: the angle in \<open>(-pi, pi]\<close> of the vector \<open>(x, y)\<close>, with
  \<open>atan2(0, 0) = 0\<close>. This is the exact function. The library's result is rounded, so two
  directions that are close can get the same key there and a different key here. What
  follows evaluates \<open>graham_scan\<close> only on inputs whose angles are \<open>0\<close>, \<open>pi / 4\<close> and
  \<open>pi / 2\<close>, which the rounded keys order as the exact ones do, and states nothing about
  \<open>graham_scan\<close> on all inputs beyond its structure.
\<close>

definition atan2 :: "real \<Rightarrow> real \<Rightarrow> real" where
  "atan2 y x =
     (if 0 < x then arctan (y / x)
      else if x < 0 then (if 0 \<le> y then arctan (y / x) + pi else arctan (y / x) - pi)
      else if 0 < y then pi / 2
      else if y < 0 then - (pi / 2)
      else 0)"

text \<open>
  \<open>min(xs, key=k)\<close> and \<open>max(xs, key=k)\<close>: one pass that replaces the current best only
  by a strictly better element, so among equal keys the first one met is returned. Both
  raise on an empty sequence; the program calls them only behind its \<open>n < 3\<close> guard.
\<close>

definition py_min :: "('a \<Rightarrow> 'k::linorder) \<Rightarrow> 'a list \<Rightarrow> 'a" where
  "py_min key xs = fold (\<lambda>x best. if key x < key best then x else best) (tl xs) (hd xs)"

definition py_max :: "('a \<Rightarrow> 'k::linorder) \<Rightarrow> 'a list \<Rightarrow> 'a" where
  "py_max key xs = fold (\<lambda>x best. if key best < key x then x else best) (tl xs) (hd xs)"

section \<open>Graham's scan\<close>

definition orientation :: "point \<Rightarrow> point \<Rightarrow> point \<Rightarrow> int" where
  "orientation p q r =
     (let val = (snd q - snd p) * (fst r - fst q) - (fst q - fst p) * (snd r - snd q)
      in if val = 0 then 0 else if 0 < val then 1 else 2)"

text \<open>
  The inner \<open>while\<close> loop of the sweep. The source's stack \<open>hull\<close> is written
  \<open>hull_stack\<close> here (\<open>hull\<close> is an operator of the library). It is a list whose top is
  its last element: \<open>hull[-1]\<close> is \<open>last hull_stack\<close>, \<open>hull[-2]\<close> is
  \<open>hull_stack ! (length hull_stack - 2)\<close> and \<open>hull.pop()\<close> is \<open>butlast hull_stack\<close>.
\<close>

function pop_loop :: "point list \<Rightarrow> point \<Rightarrow> point list" where
  "pop_loop hull_stack point =
     (if 1 < length hull_stack
         \<and> orientation (hull_stack ! (length hull_stack - 2)) (last hull_stack) point \<noteq> 1
      then pop_loop (butlast hull_stack) point
      else hull_stack)"
  by pat_completeness auto
termination
  by (relation "measure (\<lambda>(hull_stack, point). length hull_stack)") auto

declare pop_loop.simps [simp del]

definition sweep :: "point list \<Rightarrow> point list" where
  "sweep sorted_points = fold (\<lambda>point hull_stack. pop_loop hull_stack point @ [point]) sorted_points []"

definition pivot :: "point list \<Rightarrow> point" where
  "pivot points =
     points ! py_min (\<lambda>i. (snd (points ! i), fst (points ! i))) [0 ..< length points]"

definition angle_key :: "point \<Rightarrow> point \<Rightarrow> real \<times> point" where
  "angle_key p0 p = (atan2 (snd p - snd p0) (fst p - fst p0), p)"

definition graham_scan :: "point list \<Rightarrow> point list" where
  "graham_scan points =
     (if length points < 3 then points
      else let p0 = pivot points;
               sorted_points = sort_key (angle_key p0) points
           in sweep sorted_points)"

section \<open>Quickhull\<close>

definition side :: "point \<Rightarrow> point \<Rightarrow> point \<Rightarrow> real" where
  "side p1 p2 p = (snd p - snd p1) * (fst p2 - fst p1) - (snd p2 - snd p1) * (fst p - fst p1)"

text \<open>
  The \<open>for\<close> loop of \<open>quickhull_util\<close>: its state is the pair \<open>(max_dist, max_point)\<close>,
  started at \<open>(0, None)\<close>, and it visits the points in list order.
\<close>

definition scan_step :: "point \<Rightarrow> point \<Rightarrow> real \<Rightarrow> point \<Rightarrow> real \<times> point option \<Rightarrow> real \<times> point option" where
  "scan_step p1 p2 side_flag pt st =
     (let temp = \<bar>side p1 p2 pt\<bar>
      in if side p1 p2 pt = side_flag \<and> fst st < temp then (temp, Some pt) else st)"

definition farthest :: "point list \<Rightarrow> point \<Rightarrow> point \<Rightarrow> real \<Rightarrow> point option" where
  "farthest points p1 p2 side_flag = snd (fold (scan_step p1 p2 side_flag) points (0, None))"

text \<open>
  The recursion of \<open>quickhull_util\<close> has no bound in the source, so the model is a partial
  function: \<open>None\<close> means that the call does not return. Python evaluates the first
  recursive call before the second.
\<close>

partial_function (option) quickhull_util ::
  "point list \<Rightarrow> point \<Rightarrow> point \<Rightarrow> real \<Rightarrow> point list option" where
  "quickhull_util points p1 p2 side_flag =
     (case farthest points p1 p2 side_flag of
        None \<Rightarrow> Some []
      | Some max_point \<Rightarrow>
          Option.bind (quickhull_util points p1 max_point (- side p1 max_point p2)) (\<lambda>upper.
          Option.bind (quickhull_util points max_point p2 (- side max_point p2 p1)) (\<lambda>lower.
          Some (upper @ [max_point] @ lower))))"

definition quickhull :: "point list \<Rightarrow> point list option" where
  "quickhull points =
     (if length points < 3 then Some points
      else let min_point = py_min fst points;
               max_point = py_max fst points
           in Option.bind (quickhull_util points min_point max_point 1) (\<lambda>upper.
              Option.bind (quickhull_util points min_point max_point (- 1)) (\<lambda>lower.
              Some (upper @ lower @ [min_point, max_point]))))"

section \<open>Concrete inputs\<close>

text \<open>The unit square with its centre, the first concrete scenario of the specification.\<close>

definition square_input :: "point list" where
  "square_input = [(0, 0), (1, 0), (1, 1), (0, 1), (1 / 2, 1 / 2)]"

text \<open>Three copies of one point.\<close>

definition identical_input :: "point list" where
  "identical_input = [(0, 0), (0, 0), (0, 0)]"

text \<open>
  Six distinct points: the four unit points on the axes, the origin between them, and
  \<open>(-2, -1)\<close> to the lower left. Around the origin the four unit points follow each other
  at equal values of \<open>side\<close>.
\<close>

definition cyclic_input :: "point list" where
  "cyclic_input = [(0, 0), (1, 0), (0, 1), (- 1, 0), (0, - 1), (- 2, - 1)]"

definition cycle_start :: "point set" where
  "cycle_start = {(- 1, 0), (0, 1), (1, 0), (0, - 1)}"

section \<open>First minimum and first maximum\<close>

text \<open>
  \<open>py_min\<close> returns the first element, in list order, whose key is least, and \<open>py_max\<close>
  the first whose key is greatest.
\<close>

lemma fold_min_find:
  fixes key :: "'a \<Rightarrow> 'k::linorder"
  shows "find (\<lambda>x. \<forall>y\<in>set (b # xs). key x \<le> key y) (b # xs)
   = Some (fold (\<lambda>x best. if key x < key best then x else best) xs b)"
proof (induction xs arbitrary: b)
  case Nil
  show ?case by simp
next
  case (Cons a xs)
  let ?b = "if key a < key b then a else b"
  have same: "(\<forall>y\<in>set (b # a # xs). key x \<le> key y) = (\<forall>y\<in>set (?b # xs). key x \<le> key y)" for x
    by auto
  have "find (\<lambda>x. \<forall>y\<in>set (b # a # xs). key x \<le> key y) (b # a # xs)
        = find (\<lambda>x. \<forall>y\<in>set (?b # xs). key x \<le> key y) (b # a # xs)"
    by (simp only: same)
  also have "\<dots> = find (\<lambda>x. \<forall>y\<in>set (?b # xs). key x \<le> key y) (?b # xs)"
    by (auto simp: not_less)
  also have "\<dots> = Some (fold (\<lambda>x best. if key x < key best then x else best) xs ?b)"
    by (rule Cons.IH)
  finally show ?case by simp
qed

lemma py_min_first:
  fixes key :: "'a \<Rightarrow> 'k::linorder"
  shows "xs \<noteq> [] \<Longrightarrow> find (\<lambda>x. \<forall>y\<in>set xs. key x \<le> key y) xs = Some (py_min key xs)"
  using fold_min_find[where key=key and b="hd xs" and xs="tl xs"] by (simp add: py_min_def)

lemma fold_max_find:
  fixes key :: "'a \<Rightarrow> 'k::linorder"
  shows "find (\<lambda>x. \<forall>y\<in>set (b # xs). key y \<le> key x) (b # xs)
   = Some (fold (\<lambda>x best. if key best < key x then x else best) xs b)"
proof (induction xs arbitrary: b)
  case Nil
  show ?case by simp
next
  case (Cons a xs)
  let ?b = "if key b < key a then a else b"
  have same: "(\<forall>y\<in>set (b # a # xs). key y \<le> key x) = (\<forall>y\<in>set (?b # xs). key y \<le> key x)" for x
    by auto
  have "find (\<lambda>x. \<forall>y\<in>set (b # a # xs). key y \<le> key x) (b # a # xs)
        = find (\<lambda>x. \<forall>y\<in>set (?b # xs). key y \<le> key x) (b # a # xs)"
    by (simp only: same)
  also have "\<dots> = find (\<lambda>x. \<forall>y\<in>set (?b # xs). key y \<le> key x) (?b # xs)"
    by (auto simp: not_less)
  also have "\<dots> = Some (fold (\<lambda>x best. if key best < key x then x else best) xs ?b)"
    by (rule Cons.IH)
  finally show ?case by simp
qed

lemma py_max_first:
  fixes key :: "'a \<Rightarrow> 'k::linorder"
  shows "xs \<noteq> [] \<Longrightarrow> find (\<lambda>x. \<forall>y\<in>set xs. key y \<le> key x) xs = Some (py_max key xs)"
  using fold_max_find[where key=key and b="hd xs" and xs="tl xs"] by (simp add: py_max_def)

section \<open>The pop loop\<close>

text \<open>
  \<open>pop_loop\<close> keeps a prefix of the stack: it stops at the first length \<open>k\<close>, counted from
  the top, at which the stack is shorter than two or its two top points and the next point
  have category \<open>1\<close>; at every greater length the test of the loop held and a point was
  popped.
\<close>

lemma pop_loop_take:
  "\<exists>k\<le>length hs. pop_loop hs p = take k hs
     \<and> \<not> (1 < k \<and> orientation (hs ! (k - 2)) (hs ! (k - 1)) p \<noteq> 1)
     \<and> (\<forall>j. k < j \<and> j \<le> length hs \<longrightarrow>
            1 < j \<and> orientation (hs ! (j - 2)) (hs ! (j - 1)) p \<noteq> 1)"
proof (induction hs p rule: pop_loop.induct)
  case (1 hs p)
  let ?c = "1 < length hs \<and> orientation (hs ! (length hs - 2)) (last hs) p \<noteq> 1"
  show ?case
  proof (cases ?c)
    case False
    then have "pop_loop hs p = hs" by (subst pop_loop.simps) (simp only: if_False)
    moreover have "hs ! (length hs - 1) = last hs" if "1 < length hs"
    proof -
      from that have "hs \<noteq> []" by auto
      then show ?thesis by (simp add: last_conv_nth)
    qed
    ultimately show ?thesis using False by (intro exI[of _ "length hs"]) auto
  next
    case True
    then have ne: "hs \<noteq> []" by auto
    from 1[OF True] obtain k where k: "k \<le> length (butlast hs)"
        "pop_loop (butlast hs) p = take k (butlast hs)"
        "\<not> (1 < k \<and> orientation (butlast hs ! (k - 2)) (butlast hs ! (k - 1)) p \<noteq> 1)"
        "\<forall>j. k < j \<and> j \<le> length (butlast hs) \<longrightarrow>
            1 < j \<and> orientation (butlast hs ! (j - 2)) (butlast hs ! (j - 1)) p \<noteq> 1"
      by blast
    have nth: "butlast hs ! i = hs ! i" if "i < length hs - 1" for i
      using that by (simp add: nth_butlast)
    have kl: "k \<le> length hs - 1" using k(1) by simp
    have a: "pop_loop hs p = take k hs"
      using True k(2) kl by (subst pop_loop.simps) (simp add: butlast_conv_take min_def)
    have b: "\<not> (1 < k \<and> orientation (hs ! (k - 2)) (hs ! (k - 1)) p \<noteq> 1)"
    proof (cases "1 < k")
      case False
      then show ?thesis by simp
    next
      case k1: True
      then have "butlast hs ! (k - 2) = hs ! (k - 2)" "butlast hs ! (k - 1) = hs ! (k - 1)"
        using kl by (auto intro!: nth)
      with k(3) show ?thesis by simp
    qed
    have c: "1 < j \<and> orientation (hs ! (j - 2)) (hs ! (j - 1)) p \<noteq> 1"
      if "k < j" "j \<le> length hs" for j
    proof (cases "j = length hs")
      case True
      with \<open>?c\<close> ne show ?thesis by (simp add: last_conv_nth)
    next
      case False
      with that have j: "j \<le> length (butlast hs)" by simp
      with k(4) that have *: "1 < j \<and> orientation (butlast hs ! (j - 2)) (butlast hs ! (j - 1)) p \<noteq> 1"
        by blast
      then have "butlast hs ! (j - 2) = hs ! (j - 2)" "butlast hs ! (j - 1) = hs ! (j - 1)"
        using j by (auto intro!: nth)
      with * show ?thesis by simp
    qed
    from kl a b c show ?thesis by (intro exI[of _ k]) auto
  qed
qed

lemma sweep_snoc: "sweep (xs @ [point]) = pop_loop (sweep xs) point @ [point]"
  by (simp add: sweep_def)

section \<open>The scan of \<open>quickhull_util\<close>\<close>

text \<open>
  Every point that passes \<open>side p1 p2 p = side_flag\<close> has the same distance
  \<open>\<bar>side_flag\<bar>\<close>, so only the first of them beats \<open>max_dist\<close>, and none does when
  \<open>side_flag\<close> is \<open>0\<close>: the scan returns the first point whose \<open>side\<close> equals a non-zero
  \<open>side_flag\<close>.
\<close>

lemma scan_step_found:
  "fold (scan_step p1 p2 side_flag) xs (\<bar>side_flag\<bar>, Some m) = (\<bar>side_flag\<bar>, Some m)"
  by (induction xs) (auto simp: scan_step_def Let_def)

lemma scan_find:
  "fold (scan_step p1 p2 side_flag) xs (0, None)
   = (case find (\<lambda>p. side p1 p2 p = side_flag \<and> side_flag \<noteq> 0) xs of
        None \<Rightarrow> (0, None) | Some m \<Rightarrow> (\<bar>side_flag\<bar>, Some m))"
proof (induction xs)
  case Nil
  show ?case by simp
next
  case (Cons x xs)
  show ?case
  proof (cases "side p1 p2 x = side_flag \<and> side_flag \<noteq> 0")
    case True
    then have "scan_step p1 p2 side_flag x (0, None) = (\<bar>side_flag\<bar>, Some x)"
      by (simp add: scan_step_def Let_def)
    with True show ?thesis by (simp add: scan_step_found)
  next
    case False
    then have "scan_step p1 p2 side_flag x (0, None) = (0, None)"
      by (auto simp: scan_step_def Let_def)
    with False Cons.IH show ?thesis by auto
  qed
qed

lemma farthest_find:
  "farthest points p1 p2 side_flag
   = find (\<lambda>p. side p1 p2 p = side_flag \<and> side_flag \<noteq> 0) points"
  by (simp add: farthest_def scan_find split: option.split)

lemma fold_keep:
  "\<forall>x\<in>set xs. \<not> better x b \<Longrightarrow> fold (\<lambda>x best. if better x best then x else best) xs b = b"
  by (induction xs) auto

lemma py_min_same_key:
  fixes key :: "'a \<Rightarrow> 'k::linorder"
  shows "\<forall>x\<in>set xs. key x = key (hd xs) \<Longrightarrow> py_min key xs = hd xs"
  unfolding py_min_def
  by (rule fold_keep[where better="\<lambda>x best. key x < key best"]) (cases xs; auto)

lemma py_max_same_key:
  fixes key :: "'a \<Rightarrow> 'k::linorder"
  shows "\<forall>x\<in>set xs. key x = key (hd xs) \<Longrightarrow> py_max key xs = hd xs"
  unfolding py_max_def
  by (rule fold_keep[where better="\<lambda>x best. key best < key x"]) (cases xs; auto)

lemma side_degenerate: "side p p q = 0"
  by (simp add: side_def)

lemma quickhull_util_degenerate:
  "side_flag \<noteq> 0 \<Longrightarrow> quickhull_util points p p side_flag = Some []"
proof -
  assume f: "side_flag \<noteq> 0"
  have "find (\<lambda>q. side p p q = side_flag \<and> side_flag \<noteq> 0) points = None"
    using f by (simp add: find_None_iff side_degenerate)
  then show ?thesis by (subst quickhull_util.simps) (simp add: farthest_find)
qed

section \<open>The square with its centre\<close>

lemma atan2_square:
  "atan2 0 0 = 0" "atan2 0 1 = 0" "atan2 1 1 = pi / 4" "atan2 (1 / 2) (1 / 2) = pi / 4"
  "atan2 1 0 = pi / 2"
  by (simp_all add: atan2_def arctan_one)

lemma pivot_square: "pivot square_input = (0, 0)"
  by (simp add: pivot_def square_input_def py_min_def upt_rec)

lemma sorted_square:
  "sort_key (angle_key (0, 0)) square_input = [(0, 0), (1, 0), (1 / 2, 1 / 2), (1, 1), (0, 1)]"
  by (simp add: square_input_def angle_key_def atan2_square)

lemma sweep_square: "sweep [(0, 0), (1, 0), (1 / 2, 1 / 2), (1, 1), (0, 1)] = [(0, 0), (0, 1)]"
  by (simp add: sweep_def pop_loop.simps orientation_def)

lemma graham_square: "graham_scan square_input = [(0, 0), (0, 1)]"
  unfolding graham_scan_def Let_def pivot_square sorted_square sweep_square
  by (simp add: square_input_def)

lemma ends_square: "py_min fst square_input = (0, 0)" "py_max fst square_input = (1, 0)"
  by (simp_all add: square_input_def py_min_def py_max_def)

lemma upper_square: "quickhull_util square_input (0, 0) (1, 0) 1 = Some [(0, 1), (1, 1)]"
  by (simp add: quickhull_util.simps farthest_find square_input_def side_def)

lemma lower_square: "quickhull_util square_input (0, 0) (1, 0) (- 1) = Some []"
  by (simp add: quickhull_util.simps farthest_find square_input_def side_def)

lemma quickhull_square: "quickhull square_input = Some [(0, 1), (1, 1), (0, 0), (1, 0)]"
  by (simp add: quickhull_def ends_square upper_square lower_square) (simp add: square_input_def)

section \<open>A recursion that never returns\<close>

text \<open>
  On \<open>cyclic_input\<close>, a call \<open>quickhull_util points p1 (0, 0) 1\<close> with \<open>p1\<close> one of the four
  unit points selects the next unit point \<open>m\<close> counter-clockwise, and its second recursive
  call is \<open>quickhull_util points m (0, 0) 1\<close> again: four calls that need each other.
\<close>

lemma farthest_cycle:
  "farthest cyclic_input (- 1, 0) (0, 0) 1 = Some (0, 1)"
  "farthest cyclic_input (0, 1) (0, 0) 1 = Some (1, 0)"
  "farthest cyclic_input (1, 0) (0, 0) 1 = Some (0, - 1)"
  "farthest cyclic_input (0, - 1) (0, 0) 1 = Some (- 1, 0)"
  by (simp_all add: farthest_find cyclic_input_def side_def)

lemma cycle_never_returns:
  assumes "quickhull_util ps a b f = Some r"
  shows "\<not> (ps = cyclic_input \<and> a \<in> cycle_start \<and> b = (0, 0) \<and> f = 1)"
proof (rule quickhull_util.raw_induct
    [where P = "\<lambda>points p1 p2 side_flag y.
        \<not> (points = cyclic_input \<and> p1 \<in> cycle_start \<and> p2 = (0, 0) \<and> side_flag = 1)",
     OF _ assms])
  fix qu :: "point list \<Rightarrow> point \<Rightarrow> point \<Rightarrow> real \<Rightarrow> point list option"
  fix points p1 p2 side_flag y
  assume IH: "\<And>points p1 p2 side_flag y. qu points p1 p2 side_flag = Some y \<Longrightarrow>
      \<not> (points = cyclic_input \<and> p1 \<in> cycle_start \<and> p2 = (0, 0) \<and> side_flag = 1)"
  assume step: "(case farthest points p1 p2 side_flag of
        None \<Rightarrow> Some []
      | Some max_point \<Rightarrow>
          Option.bind (qu points p1 max_point (- side p1 max_point p2)) (\<lambda>upper.
          Option.bind (qu points max_point p2 (- side max_point p2 p1)) (\<lambda>lower.
          Some (upper @ [max_point] @ lower)))) = Some y"
  show "\<not> (points = cyclic_input \<and> p1 \<in> cycle_start \<and> p2 = (0, 0) \<and> side_flag = 1)"
  proof
    assume a: "points = cyclic_input \<and> p1 \<in> cycle_start \<and> p2 = (0, 0) \<and> side_flag = 1"
    then obtain m where m: "farthest points p1 p2 side_flag = Some m" "m \<in> cycle_start"
      "- side m p2 p1 = 1"
      by (auto simp: cycle_start_def farthest_cycle side_def)
    from step m obtain lower where "qu points m p2 1 = Some lower"
      by (auto simp: bind_eq_Some_conv)
    from IH[OF this] a m show False by simp
  qed
qed

lemma cycle_call: "quickhull_util cyclic_input (- 1, 0) (0, 0) 1 = None"
  using cycle_never_returns [of cyclic_input "(- 1, 0)" "(0, 0)" 1]
  by (cases "quickhull_util cyclic_input (- 1, 0) (0, 0) 1") (auto simp: cycle_start_def)

lemma ends_cyclic: "py_min fst cyclic_input = (- 2, - 1)" "py_max fst cyclic_input = (1, 0)"
  by (simp_all add: cyclic_input_def py_min_def py_max_def)

lemma farthest_cyclic:
  "farthest cyclic_input (- 2, - 1) (1, 0) 1 = Some (0, 0)"
  "farthest cyclic_input (- 2, - 1) (0, 0) (- side (- 2, - 1) (0, 0) (1, 0)) = Some (- 1, 0)"
  "farthest cyclic_input (- 2, - 1) (- 1, 0) (- side (- 2, - 1) (- 1, 0) (0, 0)) = None"
  by (simp_all add: farthest_find cyclic_input_def side_def)

lemma cyclic_third:
  "quickhull_util cyclic_input (- 2, - 1) (- 1, 0) (- side (- 2, - 1) (- 1, 0) (0, 0)) = Some []"
  by (subst quickhull_util.simps) (simp add: farthest_cyclic)

lemma cyclic_second:
  "quickhull_util cyclic_input (- 2, - 1) (0, 0) (- side (- 2, - 1) (0, 0) (1, 0)) = None"
proof -
  have "- side (- 1, 0) (0, 0) (- 2, - 1) = 1" by (simp add: side_def)
  then show ?thesis
    by (subst quickhull_util.simps) (simp add: farthest_cyclic cyclic_third cycle_call)
qed

lemma cyclic_upper: "quickhull_util cyclic_input (- 2, - 1) (1, 0) 1 = None"
  by (subst quickhull_util.simps) (simp add: farthest_cyclic cyclic_second)

section \<open>Inputs with fewer than three points\<close>

text \<open>
  C9. With fewer than three points both algorithms return the input list itself, in its
  order; the empty input gives the empty hull.
\<close>

theorem small_input_unchanged:
  "length points < 3 \<Longrightarrow> graham_scan points = points \<and> quickhull points = Some points"
  by (simp add: graham_scan_def quickhull_def)

theorem small_input_unchanged_witness:
  "length ([] :: point list) < 3 \<and> graham_scan [] = [] \<and> quickhull [] = Some []
   \<and> length [(5, 5) :: point] < 3 \<and> graham_scan [(5, 5)] = [(5, 5)]
   \<and> quickhull [(5, 5)] = Some [(5, 5)]"
  using small_input_unchanged [of "[]"] small_input_unchanged [of "[(5, 5)]"] by simp

section \<open>Properties of Graham's scan\<close>

text \<open>
  C5. The sweep starts from the empty stack; for each next point it pops while the stack
  has at least two elements and \<open>orientation\<close> of (second-to-top, top, next) is not \<open>1\<close>,
  then pushes the point; the stack left after the last point is what \<open>graham_scan\<close>
  returns. The popping is stated without the loop: the stack that remains is the prefix of
  length \<open>k\<close>, the test of the loop fails at \<open>k\<close>, and it held at every greater length.
\<close>

theorem sweep_pops_then_pushes:
  "sweep [] = []
   \<and> sweep (xs @ [point]) = pop_loop (sweep xs) point @ [point]
   \<and> (\<exists>k\<le>length hs. pop_loop hs point = take k hs
         \<and> \<not> (1 < k \<and> orientation (hs ! (k - 2)) (hs ! (k - 1)) point \<noteq> 1)
         \<and> (\<forall>j. k < j \<and> j \<le> length hs \<longrightarrow>
                1 < j \<and> orientation (hs ! (j - 2)) (hs ! (j - 1)) point \<noteq> 1))
   \<and> (3 \<le> length points \<longrightarrow>
        graham_scan points = sweep (sort_key (angle_key (pivot points)) points))"
proof -
  have "sweep [] = []" by (simp add: sweep_def)
  moreover have "3 \<le> length points \<longrightarrow>
      graham_scan points = sweep (sort_key (angle_key (pivot points)) points)"
    by (simp add: graham_scan_def Let_def)
  ultimately show ?thesis using sweep_snoc pop_loop_take by blast
qed

theorem sweep_pops_then_pushes_witness:
  "3 \<le> length square_input
   \<and> graham_scan square_input = sweep [(0, 0), (1, 0), (1 / 2, 1 / 2), (1, 1), (0, 1)]
   \<and> sweep ([(0, 0), (1, 0)] @ [(1 / 2, 1 / 2)])
       = pop_loop (sweep [(0, 0), (1, 0)]) (1 / 2, 1 / 2) @ [(1 / 2, 1 / 2)]
   \<and> pop_loop [(0, 0), (1, 0)] (1 / 2, 1 / 2) = [(0, 0)]"
proof -
  note inst = sweep_pops_then_pushes
    [of "[(0, 0), (1, 0)]" "(1 / 2, 1 / 2)" "[(0, 0), (1, 0)]" square_input]
  have len: "3 \<le> length square_input" by (simp add: square_input_def)
  let ?hs = "[(0, 0), (1, 0)] :: point list"
  from inst obtain k where k: "k \<le> length ?hs"
    "pop_loop ?hs (1 / 2, 1 / 2) = take k ?hs"
    "\<not> (1 < k \<and> orientation (?hs ! (k - 2)) (?hs ! (k - 1)) (1 / 2, 1 / 2) \<noteq> 1)"
    "\<forall>j. k < j \<and> j \<le> length ?hs \<longrightarrow>
        1 < j \<and> orientation (?hs ! (j - 2)) (?hs ! (j - 1)) (1 / 2, 1 / 2) \<noteq> 1"
    by blast
  have "k \<noteq> 0" using k(4) [rule_format, of 1] by auto
  moreover have "k \<noteq> 2" using k(3) by (auto simp: orientation_def)
  ultimately have "k = 1" using k(1) by simp
  with k(2) have "pop_loop [(0, 0), (1, 0)] (1 / 2, 1 / 2) = [(0, 0)]" by simp
  with inst len show ?thesis by (simp add: pivot_square sorted_square)
qed

text \<open>
  C4. On the unit square with its centre \<open>graham_scan\<close> returns \<open>[(0, 0), (0, 1)]\<close>: two
  points, which bound no polygon, and closed up they give the collinear triple
  \<open>(0, 0), (0, 1), (0, 0)\<close>. The corner \<open>(1, 0)\<close> is popped when \<open>(1/2, 1/2)\<close> arrives,
  although \<open>(0, 0), (1, 0), (1/2, 1/2)\<close> is a left turn (category \<open>2\<close>): the loop keeps the
  top only at category \<open>1\<close>, a right turn. So the sweep, given
  \<open>[(0, 0), (1, 1), (10^17 + 1, 10^17)]\<close>, keeps all three points, whose turn is to the
  right. On three copies of one point the result holds that point twice.
\<close>

theorem graham_scan_not_a_boundary:
  "graham_scan square_input = [(0, 0), (0, 1)]
   \<and> orientation (0, 0) (0, 1) (0, 0) = 0
   \<and> orientation (0, 0) (1, 0) (1 / 2, 1 / 2) = 2
   \<and> pop_loop [(0, 0), (1, 0)] (1 / 2, 1 / 2) = [(0, 0)]
   \<and> orientation (0, 0) (1, 1) (10 ^ 17 + 1, 10 ^ 17) = 1
   \<and> sweep [(0, 0), (1, 1), (10 ^ 17 + 1, 10 ^ 17)] = [(0, 0), (1, 1), (10 ^ 17 + 1, 10 ^ 17)]
   \<and> graham_scan identical_input = [(0, 0), (0, 0)]"
proof -
  have a: "orientation (0, 0) (0, 1) (0, 0) = 0" "orientation (0, 0) (1, 0) (1 / 2, 1 / 2) = 2"
    "orientation (0, 0) (1, 1) (10 ^ 17 + 1, 10 ^ 17) = 1"
    by (simp_all add: orientation_def Let_def)
  have b: "pop_loop [(0, 0), (1, 0)] (1 / 2, 1 / 2) = [(0, 0)]"
    by (simp add: pop_loop.simps orientation_def Let_def)
  have c: "sweep [(0, 0), (1, 1), (10 ^ 17 + 1, 10 ^ 17)]
      = [(0, 0), (1, 1), (10 ^ 17 + 1, 10 ^ 17)]"
    by (simp add: sweep_def pop_loop.simps orientation_def Let_def)
  have "pivot identical_input = (0, 0)"
    by (simp add: pivot_def identical_input_def py_min_def upt_rec)
  moreover have "sort_key (angle_key (0, 0)) identical_input = [(0, 0), (0, 0), (0, 0)]"
    by (simp add: identical_input_def angle_key_def)
  moreover have "sweep [(0, 0), (0, 0), (0, 0)] = [(0, 0), (0, 0)]"
    by (simp add: sweep_def pop_loop.simps orientation_def)
  ultimately have d: "graham_scan identical_input = [(0, 0), (0, 0)]"
    by (simp add: graham_scan_def identical_input_def)
  from graham_square a b c d show ?thesis by blast
qed

section \<open>Properties of Quickhull\<close>

text \<open>
  C6. On the six points of \<open>cyclic_input\<close>, \<open>quickhull\<close> takes \<open>(-2, -1)\<close> as \<open>min_point\<close> and
  \<open>(1, 0)\<close> as \<open>max_point\<close>, the first points of least and of greatest x, but its recursion
  with flag \<open>1\<close> does not return, so \<open>quickhull\<close> returns no concatenation.
\<close>

theorem quickhull_cyclic_no_assembly:
  "3 \<le> length cyclic_input
   \<and> py_min fst cyclic_input = (- 2, - 1)
   \<and> py_max fst cyclic_input = (1, 0)
   \<and> quickhull_util cyclic_input (- 2, - 1) (1, 0) 1 = None
   \<and> quickhull cyclic_input = None"
proof -
  have "quickhull cyclic_input = None"
    by (simp add: quickhull_def ends_cyclic cyclic_upper) (simp add: cyclic_input_def)
  then show ?thesis by (simp add: ends_cyclic cyclic_upper) (simp add: cyclic_input_def)
qed


text \<open>
  C10. When all of at least three points have the same x, \<open>quickhull\<close> returns the first
  point of the input twice: it is both \<open>min_point\<close> and \<open>max_point\<close>, and both recursions
  return the empty list.
\<close>

theorem quickhull_same_x:
  assumes "3 \<le> length points" "\<forall>p\<in>set points. fst p = fst (hd points)"
  shows "quickhull points = Some [hd points, hd points]"
  using assms
  by (simp add: quickhull_def py_min_same_key py_max_same_key quickhull_util_degenerate Let_def)

theorem quickhull_same_x_witness:
  "3 \<le> length [(0, 1), (0, 0), (0, 2) :: point]
   \<and> quickhull [(0, 1), (0, 0), (0, 2)] = Some [(0, 1), (0, 1)]"
  using quickhull_same_x [of "[(0, 1), (0, 0), (0, 2)]"] by simp

text \<open>
  C8. On the six points of \<open>cyclic_input\<close> the call \<open>quickhull\<close> does not return: its first
  recursion reaches \<open>quickhull_util points (-1, 0) (0, 0) 1\<close>, which needs its own result.
\<close>

theorem quickhull_cyclic_never_returns:
  "quickhull cyclic_input = None"
  by (simp add: quickhull_def ends_cyclic cyclic_upper) (simp add: cyclic_input_def)

section \<open>The two algorithms on the square\<close>

text \<open>
  C1. On the unit square with its centre the two vertex sets differ: \<open>quickhull\<close> returns
  the four corners, \<open>graham_scan\<close> two of them.
\<close>

theorem hull_sets_differ_on_square:
  "quickhull square_input = Some [(0, 1), (1, 1), (0, 0), (1, 0)]
   \<and> set (graham_scan square_input) \<noteq> set [(0, 1), (1, 1), (0, 0), (1, 0)]"
proof -
  have "((1, 0) :: point) \<in> set [(0, 1), (1, 1), (0, 0), (1, 0)]" by simp
  moreover have "((1, 0) :: point) \<notin> set (graham_scan square_input)"
    by (simp add: graham_square)
  ultimately have "set (graham_scan square_input) \<noteq> set [(0, 1), (1, 1), (0, 0), (1, 0)]"
    by metis
  then show ?thesis by (simp only: quickhull_square) simp
qed

text \<open>
  C2. On the unit square with its centre \<open>graham_scan\<close> returns the two points \<open>(0, 0)\<close> and
  \<open>(0, 1)\<close>. The polygon they form is the segment between them, and the input point
  \<open>(1, 0)\<close> is on no point of the line through them.
\<close>

theorem graham_square_excludes_corner:
  "graham_scan square_input = [(0, 0), (0, 1)]
   \<and> (1, 0) \<in> set square_input
   \<and> (\<nexists>t::real. ((1, 0) :: point) = ((1 - t) * 0 + t * 0, (1 - t) * 0 + t * 1))"
  by (simp add: graham_square) (simp add: square_input_def)

text \<open>
  C3. On the input \<open>[(0,0), (1,0), (1,1), (0,1), (0.5,0.5)]\<close> \<open>quickhull\<close> returns the four
  corners and leaves the centre out; \<open>graham_scan\<close> returns \<open>(0, 0)\<close> and \<open>(0, 1)\<close> only.
\<close>

theorem square_scenario:
  "square_input = [(0, 0), (1, 0), (1, 1), (0, 1), (1 / 2, 1 / 2)]
   \<and> graham_scan square_input = [(0, 0), (0, 1)]
   \<and> quickhull square_input = Some [(0, 1), (1, 1), (0, 0), (1, 0)]"
  by (simp add: graham_square quickhull_square) (simp add: square_input_def)

end
